theory Spec2Isabelle
  imports Complex_Main "HOL-Library.Char_ord"
begin

section \<open>Text: Python strings, \<open>str.join\<close>, \<open>str.strip\<close>\<close>

text \<open>
  A Python \<open>str\<close> is modelled as a \<open>string\<close>; each \<open>char\<close> stands for the code
  point of the same number (0 to 255). Iterating over a \<open>str\<close> yields its characters
  as one-character strings (\<open>str_iter\<close>); \<open>sep.join(it)\<close> concatenates the items of
  an iterable of strings with \<open>sep\<close> between neighbours.
\<close>

definition str_iter :: "string \<Rightarrow> string list" where
  "str_iter s = map (\<lambda>c. [c]) s"

fun join :: "string \<Rightarrow> string list \<Rightarrow> string" where
  "join sep [] = []"
| "join sep [x] = x"
| "join sep (x # y # ys) = x @ sep @ join sep (y # ys)"

text \<open>
  The character classes of the \<open>re\<close> module on \<open>str\<close> patterns: \<open>[A-Z]\<close> and
  \<open>[a-z]\<close> are ranges of code points; \<open>\s\<close> and \<open>\w\<close> are the Unicode classes
  (white space; alphanumeric or underscore), written out for the code points below 256.
  \<open>str.strip()\<close> removes the same white space from both ends.
\<close>

definition is_upper :: "char \<Rightarrow> bool" where
  "is_upper c \<longleftrightarrow> CHR ''A'' \<le> c \<and> c \<le> CHR ''Z''"

definition is_lower :: "char \<Rightarrow> bool" where
  "is_lower c \<longleftrightarrow> CHR ''a'' \<le> c \<and> c \<le> CHR ''z''"

definition is_digit :: "char \<Rightarrow> bool" where
  "is_digit c \<longleftrightarrow> CHR ''0'' \<le> c \<and> c \<le> CHR ''9''"

definition is_space :: "char \<Rightarrow> bool" where
  "is_space c \<longleftrightarrow>
     (let n = (of_char c :: nat)
      in (9 \<le> n \<and> n \<le> 13) \<or> (28 \<le> n \<and> n \<le> 32) \<or> n = 133 \<or> n = 160)"

definition is_word :: "char \<Rightarrow> bool" where
  "is_word c \<longleftrightarrow>
     is_upper c \<or> is_lower c \<or> is_digit c \<or> c = CHR ''_'' \<or>
     (let n = (of_char c :: nat)
      in n = 170 \<or> n = 178 \<or> n = 179 \<or> n = 181 \<or> n = 185 \<or> n = 186 \<or>
         (188 \<le> n \<and> n \<le> 190) \<or> (192 \<le> n \<and> n \<le> 214) \<or>
         (216 \<le> n \<and> n \<le> 246) \<or> 248 \<le> n)"

definition strip :: "string \<Rightarrow> string" where
  "strip s = rev (dropWhile is_space (rev (dropWhile is_space s)))"

section \<open>Regular expressions: \<open>re.findall\<close>\<close>

text \<open>
  The two patterns of the program use only: a single character of a class, a greedy
  star of a class, and the word boundary \<open>\b\<close>. A pattern is a list of such items.
\<close>

datatype cls = Upper | Lower | Space | Quote | NotQuote

fun in_cls :: "cls \<Rightarrow> char \<Rightarrow> bool" where
  "in_cls Upper c = is_upper c"
| "in_cls Lower c = is_lower c"
| "in_cls Space c = is_space c"
| "in_cls Quote c = (c = CHR 0x22)"
| "in_cls NotQuote c = (c \<noteq> CHR 0x22)"

datatype item = Boundary | One cls | Star cls

text \<open>
  \<open>\b\<close> holds between a word character and a non-word character, the start and the
  end of the text counting as non-word. \<open>prev\<close> is the character before the current
  position (\<open>None\<close> at the start of the text).
\<close>

definition word_before :: "char option \<Rightarrow> bool" where
  "word_before prev = (case prev of None \<Rightarrow> False | Some c \<Rightarrow> is_word c)"

definition word_after :: "string \<Rightarrow> bool" where
  "word_after s = (case s of [] \<Rightarrow> False | c # _ \<Rightarrow> is_word c)"

definition at_boundary :: "char option \<Rightarrow> string \<Rightarrow> bool" where
  "at_boundary prev s \<longleftrightarrow> word_before prev \<noteq> word_after s"

definition piece :: "string \<Rightarrow> (string list \<times> string) option \<Rightarrow> (string list \<times> string) option" where
  "piece p r = (case r of None \<Rightarrow> None | Some (ps, rest) \<Rightarrow> Some (p # ps, rest))"

text \<open>
  The backtracking matcher, anchored at the current position. It returns the text
  matched by each item of the pattern, in order, and the text left after the match.
  The star is greedy: it first takes one more character, and gives it back only when
  the rest of the pattern fails after it.
\<close>

fun match_here :: "item list \<Rightarrow> char option \<Rightarrow> string \<Rightarrow> (string list \<times> string) option" where
  "match_here [] prev s = Some ([], s)"
| "match_here (Boundary # r) prev s =
     (if at_boundary prev s then piece [] (match_here r prev s) else None)"
| "match_here (One c # r) prev [] = None"
| "match_here (One c # r) prev (x # xs) =
     (if in_cls c x then piece [x] (match_here r (Some x) xs) else None)"
| "match_here (Star c # r) prev [] = piece [] (match_here r prev [])"
| "match_here (Star c # r) prev (x # xs) =
     (if in_cls c x
      then (case match_here (Star c # r) (Some x) xs of
              Some (p # ps, rest) \<Rightarrow> Some ((x # p) # ps, rest)
            | _ \<Rightarrow> piece [] (match_here r prev (x # xs)))
      else piece [] (match_here r prev (x # xs)))"

text \<open>
  The scan of \<open>re.findall\<close>: the leftmost match from each position, matches not
  overlapping. After a match the scan goes on where the match ended; where nothing
  matches, or the match is empty, it moves one character on. The result lists the
  pieces of every match.
\<close>

function scan :: "item list \<Rightarrow> char option \<Rightarrow> string \<Rightarrow> string list list" where
  "scan pat prev [] = (case match_here pat prev [] of None \<Rightarrow> [] | Some (ps, _) \<Rightarrow> [ps])"
| "scan pat prev (x # xs) =
     (case match_here pat prev (x # xs) of
        None \<Rightarrow> scan pat (Some x) xs
      | Some (ps, rest) \<Rightarrow>
          if length rest < length (x # xs)
          then ps # scan pat (Some (last (concat ps))) rest
          else ps # scan pat (Some x) xs)"
  by pat_completeness auto
termination
  by (relation "measure (\<lambda>(pat, prev, s). length s)") auto

text \<open>Without a group \<open>findall\<close> returns the whole matches; with one group, the
  text of the group, here the item of the pattern at index \<open>g\<close>.\<close>

definition findall :: "item list \<Rightarrow> string \<Rightarrow> string list" where
  "findall pat s = map concat (scan pat None s)"

definition findall_group :: "nat \<Rightarrow> item list \<Rightarrow> string \<Rightarrow> string list" where
  "findall_group g pat s = map (\<lambda>ps. ps ! g) (scan pat None s)"

text \<open>\<^verbatim>\<open>r'"([^"]*)"'\<close> and \<^verbatim>\<open>r'\b[A-Z][a-z]*\s[A-Z][a-z]*\b'\<close>\<close>

definition quote_pattern :: "item list" where
  "quote_pattern = [One Quote, Star NotQuote, One Quote]"

definition speaker_pattern :: "item list" where
  "speaker_pattern = [Boundary, One Upper, Star Lower, One Space, One Upper, Star Lower, Boundary]"

section \<open>Sets: \<open>list(set(xs))\<close>\<close>

text \<open>
  \<open>set(xs)\<close> adds the items of \<open>xs\<close> one by one, an item equal to one already in the
  set changing nothing. Iteration over a set follows the hash table, in no guaranteed
  order: \<open>h\<close> stands for the slot order of the table, unknown and arbitrary, with
  items of equal slot in the order they were added.
\<close>

definition set_add :: "'a \<Rightarrow> 'a list \<Rightarrow> 'a list" where
  "set_add x s = (if x \<in> set s then s else s @ [x])"

definition py_set :: "'a list \<Rightarrow> 'a list" where
  "py_set xs = fold set_add xs []"

definition list_of_set :: "('a \<Rightarrow> nat) \<Rightarrow> 'a list \<Rightarrow> 'a list" where
  "list_of_set h s = sort_key h s"

section \<open>\<open>identify_speakers\<close>\<close>

text \<open>The argument is any iterable of strings, given by the list of its items.\<close>

definition identify_speakers :: "(string \<Rightarrow> nat) \<Rightarrow> string list \<Rightarrow> string list" where
  "identify_speakers h article_text =
     (let matches = findall speaker_pattern (join '' '' article_text);
          speakers = list_of_set h (py_set matches)
      in speakers)"

section \<open>Numbers\<close>

text \<open>
  Python numbers: an \<open>int\<close> or a \<open>float\<close>. A float is modelled by the rational
  number it denotes; the rounding of float arithmetic is not modelled. \<open>+\<close> on two
  ints is an int and a float otherwise; \<open>/\<close> is always a float; \<open>sum\<close> starts at
  the int 0 and adds from the left.
\<close>

datatype pynum = PyInt int | PyFloat rat

fun val :: "pynum \<Rightarrow> rat" where
  "val (PyInt i) = of_int i"
| "val (PyFloat q) = q"

fun py_add :: "pynum \<Rightarrow> pynum \<Rightarrow> pynum" where
  "py_add (PyInt a) (PyInt b) = PyInt (a + b)"
| "py_add a b = PyFloat (val a + val b)"

definition py_sum :: "pynum list \<Rightarrow> pynum" where
  "py_sum xs = foldl py_add (PyInt 0) xs"

definition py_truediv :: "pynum \<Rightarrow> nat \<Rightarrow> pynum" where
  "py_truediv a n = PyFloat (val a / of_nat n)"

section \<open>\<open>calculate_speaker_score\<close>\<close>

record statement =
  title :: string
  rating :: string

definition rating_values :: "(string \<times> pynum) list" where
  "rating_values =
     [(''True'', PyInt 1), (''Mostly True'', PyFloat (8 / 10)), (''Half True'', PyFloat (5 / 10)),
      (''Mostly False'', PyFloat (2 / 10)), (''False'', PyInt 0), (''Pants on Fire!'', PyInt (- 1))]"

definition dict_get :: "('k \<times> 'v) list \<Rightarrow> 'k \<Rightarrow> 'v \<Rightarrow> 'v" where
  "dict_get d k dflt = (case map_of d k of None \<Rightarrow> dflt | Some v \<Rightarrow> v)"

definition rating_value :: "string \<Rightarrow> pynum" where
  "rating_value label = dict_get rating_values label (PyInt 0)"

definition calculate_speaker_score :: "statement list \<Rightarrow> pynum" where
  "calculate_speaker_score statements =
     (let scores = map (\<lambda>statement. rating_value (rating statement)) statements
      in if scores \<noteq> [] then py_truediv (py_sum scores) (length scores) else PyInt 0)"


section \<open>The network\<close>

text \<open>
  \<open>requests.get\<close> either raises a \<open>RequestException\<close> (no connection, time-out,
  bad URL) or returns a response with a status code and a body. The body is given by
  what the program reads from the parsed HTML. \<open>raise_for_status\<close> raises
  \<open>HTTPError\<close>, a \<open>RequestException\<close>, on the status codes 400 to 599. \<open>fetch\<close> is
  the two calls together: \<open>None\<close> when either raised.
\<close>

datatype 'doc response = RequestFailed | Response nat 'doc

definition fetch :: "'doc response \<Rightarrow> 'doc option" where
  "fetch r = (case r of
                RequestFailed \<Rightarrow> None
              | Response status doc \<Rightarrow> if 400 \<le> status \<and> status < 600 then None else Some doc)"

section \<open>\<open>get_article_text\<close>\<close>

text \<open>
  The body of the article is the list of the texts of its \<open>p\<close> elements, in document
  order. The result \<open>None\<close> is Python's \<open>None\<close>, returned after a
  \<open>RequestException\<close>.
\<close>

definition get_article_text :: "(string \<Rightarrow> string list response) \<Rightarrow> string \<Rightarrow> string list option" where
  "get_article_text article_site url =
     (case fetch (article_site url) of
        None \<Rightarrow> None
      | Some paragraphs \<Rightarrow>
          (let article_text = join '' '' paragraphs;
               statements = findall_group 1 quote_pattern article_text
           in Some statements))"

text \<open>
  The substrings enclosed in double quotation marks, as the specification words it:
  the text is cut at its quotation marks into segments; the marks pair up from the
  left, and the \<open>k\<close>-th pair encloses the segment of index \<open>2 * k + 1\<close>.
\<close>

fun segments :: "string \<Rightarrow> string list" where
  "segments [] = [[]]"
| "segments (c # cs) =
     (if c = CHR 0x22 then [] # segments cs
      else (case segments cs of seg # segs \<Rightarrow> (c # seg) # segs | [] \<Rightarrow> [[c]]))"

definition enclosed_in_quotes :: "string \<Rightarrow> string list" where
  "enclosed_in_quotes s =
     (let segs = segments s
      in map (\<lambda>k. segs ! (2 * k + 1)) [0..<(length segs - 1) div 2])"

text \<open>Every second item of a list, from the second on, as long as an item follows it.\<close>

fun odd_closed :: "'a list \<Rightarrow> 'a list" where
  "odd_closed (a # b # c # rest) = b # odd_closed (c # rest)"
| "odd_closed _ = []"

section \<open>\<open>scrape_politifact_for_speaker\<close>\<close>

text \<open>
  Exceptions that the program does not catch end the run; they are the \<open>Inl\<close> results.
\<close>

datatype error = AttributeError | TypeError | KeyError
  | FileNotFoundError | FileExistsError | IsADirectoryError

text \<open>
  The body of a search page is the list of its \<open>li.o-listicle__item\<close> elements. Of
  each, the program reads the text of the \<open>a.m-statement__quote\<close> element, if there is
  one, and follows \<open>div.m-statement__meter\<close>, \<open>picture\<close>, \<open>img\<close> to the attribute
  \<open>alt\<close>; \<open>img_alt\<close> says how far that chain goes. \<open>find\<close> returns \<open>None\<close> for
  a missing element, and the next access of the chain raises.
\<close>

datatype img_alt = NoMeter | NoPicture | NoImg | NoAlt | Alt string

record li =
  quote :: "string option"
  meter :: img_alt

definition parse_result :: "li \<Rightarrow> error + statement" where
  "parse_result result =
     (case quote result of
        None \<Rightarrow> Inl AttributeError
      | Some t \<Rightarrow>
          (case meter result of
             NoMeter \<Rightarrow> Inl AttributeError
           | NoPicture \<Rightarrow> Inl AttributeError
           | NoImg \<Rightarrow> Inl TypeError
           | NoAlt \<Rightarrow> Inl KeyError
           | Alt a \<Rightarrow> Inr \<lparr>title = strip t, rating = strip a\<rparr>))"

fun parse_results :: "li list \<Rightarrow> statement list \<Rightarrow> error + statement list" where
  "parse_results [] statements = Inr statements"
| "parse_results (result # results) statements =
     (case parse_result result of
        Inl e \<Rightarrow> Inl e
      | Inr st \<Rightarrow> parse_results results (statements @ [st]))"

text \<open>
  The loop \<open>while True\<close>. A request is determined by the speaker and the page number;
  \<open>site\<close> gives the response to the request for each page of the speaker. The second
  component of the result lists the pages requested, in order. The loop need not end:
  \<open>None\<close> is the run that requests pages for ever.
\<close>

partial_function (option) scrape_pages ::
  "(nat \<Rightarrow> li list response) \<Rightarrow> nat \<Rightarrow> statement list \<Rightarrow> nat list
     \<Rightarrow> ((error + statement list) \<times> nat list) option" where
  "scrape_pages site page statements requested =
     (case fetch (site page) of
        None \<Rightarrow> Some (Inr statements, requested @ [page])
      | Some results \<Rightarrow>
          if results = [] then Some (Inr statements, requested @ [page])
          else (case parse_results results statements of
                  Inl e \<Rightarrow> Some (Inl e, requested @ [page])
                | Inr statements' \<Rightarrow>
                    scrape_pages site (page + 1) statements' (requested @ [page])))"

declare scrape_pages.simps [code]

definition scrape_politifact_for_speaker ::
  "(string \<Rightarrow> nat \<Rightarrow> li list response) \<Rightarrow> string
     \<Rightarrow> ((error + statement list) \<times> nat list) option" where
  "scrape_politifact_for_speaker search_site speaker_name =
     scrape_pages (search_site speaker_name) 1 [] []"

section \<open>\<open>analyze_speakers_in_article\<close>\<close>

text \<open>
  What the run depends on and the program does not decide. The messages that the
  program prints are not part of the model.
\<close>

record env =
  hash_order :: "string \<Rightarrow> nat"
  article_site :: "string \<Rightarrow> string list response"
  search_site :: "string \<Rightarrow> nat \<Rightarrow> li list response"
  json_string :: "string \<Rightarrow> string"
  json_number :: "pynum \<Rightarrow> string"

text \<open>A \<open>dict\<close> keeps its keys in the order of their first assignment.\<close>

fun dict_set :: "('k \<times> 'v) list \<Rightarrow> 'k \<Rightarrow> 'v \<Rightarrow> ('k \<times> 'v) list" where
  "dict_set [] k v = [(k, v)]"
| "dict_set ((k', v') # d) k v = (if k' = k then (k, v) # d else (k', v') # dict_set d k v)"

text \<open>The loop over the speakers. A lookup that does not end, or raises, ends the loop.\<close>

fun score_speakers ::
  "env \<Rightarrow> string list \<Rightarrow> (string \<times> pynum) list \<Rightarrow> (error + (string \<times> pynum) list) option" where
  "score_speakers e [] speaker_scores = Some (Inr speaker_scores)"
| "score_speakers e (speaker # speakers) speaker_scores =
     (case scrape_politifact_for_speaker (search_site e) speaker of
        None \<Rightarrow> None
      | Some (Inl err, _) \<Rightarrow> Some (Inl err)
      | Some (Inr statements, _) \<Rightarrow>
          (let score = calculate_speaker_score statements
           in score_speakers e speakers (dict_set speaker_scores speaker score)))"

definition analyze_speakers_in_article ::
  "env \<Rightarrow> string \<Rightarrow> (error + (string \<times> pynum) list) option" where
  "analyze_speakers_in_article e url =
     (case get_article_text (article_site e) url of
        None \<Rightarrow> Some (Inr [])
      | Some article_text \<Rightarrow>
          (let speakers = identify_speakers (hash_order e) (str_iter (join '' '' article_text))
           in score_speakers e speakers []))"

section \<open>\<open>main\<close>\<close>











section \<open>Example inputs\<close>

text \<open>
  A search site with two pages of results for every speaker and a third, empty page;
  the same site answering the third request with status 503; an environment whose
  article site answers 404; a file system with the directory \<open>out\<close> and an earlier
  result file in it.
\<close>

definition example_search :: "string \<Rightarrow> nat \<Rightarrow> li list response" where
  "example_search speaker page =
     (if page = 1 then Response 200
        [\<lparr>quote = Some '' Taxes went up '', meter = Alt ''True''\<rparr>,
         \<lparr>quote = Some ''Crime fell'', meter = Alt '' False ''\<rparr>]
      else if page = 2 then Response 200 [\<lparr>quote = Some ''Jobs doubled'', meter = Alt ''Half True''\<rparr>]
      else if page = 3 then Response 200 []
      else Response 200 [\<lparr>quote = None, meter = NoMeter\<rparr>])"

definition example_search_failing :: "string \<Rightarrow> nat \<Rightarrow> li list response" where
  "example_search_failing speaker page =
     (if page = 3 then Response 503 [\<lparr>quote = Some ''Rents fell'', meter = Alt ''True''\<rparr>]
      else example_search speaker page)"

definition example_env :: env where
  "example_env =
     \<lparr>hash_order = length,
      article_site = (\<lambda>url. Response 404 [''Not \"Found Here\"'']),
      search_site = example_search,
      json_string = (\<lambda>s. [CHR 0x22] @ s @ [CHR 0x22]),
      json_number = (\<lambda>v. if v = PyInt 0 then ''0'' else ''0.5'')\<rparr>"


section \<open>Properties of the speaker identifier\<close>

lemmas char_class_defs = is_upper_def is_lower_def is_digit_def is_space_def is_word_def
lemmas matcher_defs = at_boundary_def word_before_def word_after_def piece_def

text \<open>
  Claim C1. In the pipeline \<open>identify_speakers\<close> receives the statements already
  joined into one string, and joins its argument once more: the second \<open>join\<close>
  iterates over the characters of the string and puts a space between any two of
  them. On the text \<open>John Smith said this\<close> the pattern then matches nothing and the
  result is empty, while on the list holding that one text the result is
  \<open>John Smith\<close>. A text without two capitalized words in a row, such as \<open>AB\<close>, can
  give a result that is not empty. An article quoting \<open>John Smith said this\<close> ends
  with no speaker at all.
\<close>

theorem identify_speakers_joined_text:
  "identify_speakers h (str_iter ''John Smith said this'') = [] \<and>
   identify_speakers h [''John Smith said this''] = [''John Smith''] \<and>
   identify_speakers h (str_iter ''AB'') = [''A B''] \<and>
   analyze_speakers_in_article
     (example_env\<lparr>article_site := (\<lambda>url. Response 200 [''\"John Smith said this\"''])\<rparr>) url
     = Some (Inr [])"
proof -
  have "identify_speakers g (str_iter ''John Smith said this'') = []"
    and "identify_speakers g [''John Smith said this''] = [''John Smith'']"
    and "identify_speakers g (str_iter ''AB'') = [''A B'']" for g
    by (simp_all add: identify_speakers_def str_iter_def findall_def speaker_pattern_def
        py_set_def list_of_set_def set_add_def char_class_defs matcher_defs)
  moreover have "get_article_text (\<lambda>url. Response 200 [''\"John Smith said this\"'']) url
      = Some [''John Smith said this'']"
    by (simp add: get_article_text_def fetch_def findall_group_def quote_pattern_def piece_def)
  ultimately show ?thesis
    by (simp add: analyze_speakers_in_article_def example_env_def)
qed

lemma distinct_fold_set_add: "distinct s \<Longrightarrow> distinct (fold set_add xs s)"
  by (induction xs arbitrary: s) (auto simp: set_add_def)

lemma set_fold_set_add: "set (fold set_add xs s) = set xs \<union> set s"
  by (induction xs arbitrary: s) (auto simp: set_add_def)

text \<open>
  Claim C9. The list returned by \<open>identify_speakers\<close> has no duplicates, and holds
  exactly the strings that the pattern matched: each matched name is in it once,
  whatever the order of the set.
\<close>

theorem identify_speakers_distinct:
  "distinct (identify_speakers h article_text) \<and>
   set (identify_speakers h article_text) = set (findall speaker_pattern (join '' '' article_text))"
  by (simp add: identify_speakers_def list_of_set_def py_set_def distinct_fold_set_add set_fold_set_add)

theorem identify_speakers_distinct_witness:
  "identify_speakers (\<lambda>_. 0) [''Al Gore met Al Gore''] = [''Al Gore''] \<and>
   distinct (identify_speakers (\<lambda>_. 0) [''Al Gore met Al Gore''])"
proof -
  have "identify_speakers (\<lambda>_. 0) [''Al Gore met Al Gore''] = [''Al Gore'']"
    by (simp add: identify_speakers_def findall_def speaker_pattern_def py_set_def list_of_set_def
        set_add_def char_class_defs matcher_defs)
  then show ?thesis
    using identify_speakers_distinct [of "\<lambda>_. 0" "[''Al Gore met Al Gore'']"] by simp
qed

section \<open>Properties of the scorer\<close>

text \<open>
  Claim C2. The rating of every label of the table is the constant of the table, and
  the rating of every other string is 0.
\<close>

theorem rating_value_table:
  "rating_value ''True'' = PyInt 1 \<and>
   rating_value ''Mostly True'' = PyFloat (8 / 10) \<and>
   rating_value ''Half True'' = PyFloat (5 / 10) \<and>
   rating_value ''Mostly False'' = PyFloat (2 / 10) \<and>
   rating_value ''False'' = PyInt 0 \<and>
   rating_value ''Pants on Fire!'' = PyInt (- 1) \<and>
   (\<forall>label. label \<notin> {''True'', ''Mostly True'', ''Half True'', ''Mostly False'', ''False'',
                        ''Pants on Fire!''} \<longrightarrow> rating_value label = PyInt 0)"
  by (simp add: rating_value_def dict_get_def rating_values_def)

theorem rating_value_table_witness:
  "''true'' \<notin> {''True'', ''Mostly True'', ''Half True'', ''Mostly False'', ''False'', ''Pants on Fire!''}
   \<and> rating_value ''true'' = PyInt 0"
  using rating_value_table by simp

lemma val_py_add: "val (py_add a b) = val a + val b"
  by (cases a; cases b) simp_all

lemma val_foldl_py_add: "val (foldl py_add a xs) = val a + sum_list (map val xs)"
  by (induction xs arbitrary: a) (simp_all add: val_py_add)

lemma val_calculate_speaker_score:
  "val (calculate_speaker_score statements) =
     (if statements = [] then 0
      else sum_list (map (\<lambda>st. val (rating_value (rating st))) statements) / of_nat (length statements))"
  by (simp add: calculate_speaker_score_def py_truediv_def py_sum_def val_foldl_py_add comp_def)



lemma rating_value_bounds: "- 1 \<le> val (rating_value label) \<and> val (rating_value label) \<le> 1"
  by (simp add: rating_value_def dict_get_def rating_values_def)

lemma sum_list_bounds:
  fixes xs :: "rat list"
  shows "\<forall>x\<in>set xs. - 1 \<le> x \<and> x \<le> 1 \<Longrightarrow>
         - of_nat (length xs) \<le> sum_list xs \<and> sum_list xs \<le> of_nat (length xs)"
  by (induction xs) auto

text \<open>
  Claim C10. The score of any list of records, whatever their ratings, lies between
  -1 and 1.
\<close>

theorem calculate_speaker_score_bounds:
  "- 1 \<le> val (calculate_speaker_score statements) \<and> val (calculate_speaker_score statements) \<le> 1"
proof (cases "statements = []")
  case True
  then show ?thesis by (simp add: val_calculate_speaker_score)
next
  case False
  let ?xs = "map (\<lambda>st. val (rating_value (rating st))) statements"
  have n: "0 < (of_nat (length statements) :: rat)" using False by simp
  have "\<forall>x\<in>set ?xs. - 1 \<le> x \<and> x \<le> 1" using rating_value_bounds by auto
  from sum_list_bounds [OF this]
  have "- of_nat (length statements) \<le> sum_list ?xs" "sum_list ?xs \<le> of_nat (length statements)"
    by simp_all
  with n have "- 1 \<le> sum_list ?xs / of_nat (length statements)"
    "sum_list ?xs / of_nat (length statements) \<le> 1"
    by (simp_all add: pos_le_divide_eq pos_divide_le_eq)
  with False show ?thesis by (simp add: val_calculate_speaker_score)
qed

section \<open>Properties of the quote extractor\<close>

lemma segments_not_Nil: "segments s \<noteq> []"
  by (induction s) (auto split: list.splits)

lemma segments_unfold:
  "segments s = takeWhile (\<lambda>c. c \<noteq> CHR 0x22) s #
     (case dropWhile (\<lambda>c. c \<noteq> CHR 0x22) s of [] \<Rightarrow> [] | q # rest \<Rightarrow> segments rest)"
  by (induction s) (auto split: list.splits)

lemma odd_closed_head: "odd_closed (a # r) = odd_closed (b # r)"
proof (cases r)
  case Nil
  then show ?thesis by simp
next
  case (Cons y ys)
  then show ?thesis by (cases ys) simp_all
qed

lemma odd_closed_nth:
  "odd_closed segs = map (\<lambda>k. segs ! (2 * k + 1)) [0..<(length segs - 1) div 2]"
proof (induction segs rule: odd_closed.induct)
  case (1 a b c rest)
  have len: "(length (a # b # c # rest) - 1) div 2 = Suc ((length (c # rest) - 1) div 2)"
    by simp
  show ?case
    unfolding len map_upt_Suc using 1 by simp
qed simp_all

lemma match_star_quote:
  "match_here [Star NotQuote, One Quote] prev s =
     (case dropWhile (\<lambda>c. c \<noteq> CHR 0x22) s of
        [] \<Rightarrow> None
      | q # rest \<Rightarrow> Some ([takeWhile (\<lambda>c. c \<noteq> CHR 0x22) s, [q]], rest))"
proof (induction s arbitrary: prev)
  case Nil
  show ?case by (simp add: piece_def)
next
  case (Cons x xs)
  show ?case
  proof (cases "x = CHR 0x22")
    case True
    then show ?thesis by (simp add: piece_def)
  next
    case False
    note IH = Cons.IH [of "Some x"]
    show ?thesis
    proof (cases "dropWhile (\<lambda>c. c \<noteq> CHR 0x22) xs")
      case Nil
      have inner: "match_here [Star NotQuote, One Quote] (Some x) xs = None"
        unfolding IH Nil by simp
      have "match_here [Star NotQuote, One Quote] prev (x # xs) = None"
        using False by (simp add: inner piece_def)
      moreover have "dropWhile (\<lambda>c. c \<noteq> CHR 0x22) (x # xs) = []"
        using False Nil by simp
      ultimately show ?thesis by (simp only: list.case)
    next
      case (Cons q rest)
      let ?tw = "takeWhile (\<lambda>c. c \<noteq> CHR 0x22) xs"
      have inner: "match_here [Star NotQuote, One Quote] (Some x) xs = Some ([?tw, [q]], rest)"
        unfolding IH Cons by simp
      have "match_here [Star NotQuote, One Quote] prev (x # xs) = Some ([x # ?tw, [q]], rest)"
        using False by (simp add: inner)
      moreover have "dropWhile (\<lambda>c. c \<noteq> CHR 0x22) (x # xs) = q # rest"
        using False Cons by simp
      moreover have "takeWhile (\<lambda>c. c \<noteq> CHR 0x22) (x # xs) = x # ?tw"
        using False by simp
      ultimately show ?thesis by (simp only: list.case)
    qed
  qed
qed

lemma match_quote_pattern_Nil: "match_here quote_pattern prev [] = None"
  by (simp add: quote_pattern_def)

lemma match_quote_pattern_Cons:
  "match_here quote_pattern prev (x # xs) =
     (if x = CHR 0x22
      then (case dropWhile (\<lambda>c. c \<noteq> CHR 0x22) xs of
              [] \<Rightarrow> None
            | q # rest \<Rightarrow> Some ([[x], takeWhile (\<lambda>c. c \<noteq> CHR 0x22) xs, [q]], rest))
      else None)"
proof (cases "dropWhile (\<lambda>c. c \<noteq> CHR 0x22) xs")
  case Nil
  then show ?thesis
    unfolding quote_pattern_def by (simp only: match_here.simps match_star_quote in_cls.simps piece_def list.case option.case split: if_splits)
next
  case (Cons q rest)
  then show ?thesis
    unfolding quote_pattern_def by (simp only: match_here.simps match_star_quote in_cls.simps piece_def list.case option.case prod.case split: if_splits)
qed

lemma scan_quote_pattern:
  "map (\<lambda>ps. ps ! 1) (scan quote_pattern prev s) = odd_closed (segments s)"
proof (induction s arbitrary: prev rule: length_induct)
  case (1 s)
  show ?case
  proof (cases s)
    case Nil
    then show ?thesis by (simp add: match_quote_pattern_Nil)
  next
    case s: (Cons x xs)
    have IHxs: "map (\<lambda>ps. ps ! 1) (scan quote_pattern p xs) = odd_closed (segments xs)" for p
      using 1 s by simp
    show ?thesis
    proof (cases "x = CHR 0x22")
      case False
      obtain seg segs where sg: "segments xs = seg # segs"
        using segments_not_Nil [of xs] by (cases "segments xs") auto
      have seg_eq: "odd_closed (segments (x # xs)) = odd_closed (segments xs)"
        using False sg by (simp add: odd_closed_head [of "x # seg" segs seg])
      have m: "match_here quote_pattern prev (x # xs) = None"
        unfolding match_quote_pattern_Cons using False by simp
      have "scan quote_pattern prev (x # xs) = scan quote_pattern (Some x) xs"
        by (simp add: m)
      then show ?thesis unfolding s seg_eq by (simp only: IHxs)
    next
      case True
      show ?thesis
      proof (cases "dropWhile (\<lambda>c. c \<noteq> CHR 0x22) xs")
        case Nil
        have "segments xs = [xs]"
          by (subst segments_unfold) (simp only: Nil list.case, use Nil in simp)
        then have seg_eq: "odd_closed (segments (x # xs)) = odd_closed (segments xs)"
          using True by simp
        have m: "match_here quote_pattern prev (x # xs) = None"
          unfolding match_quote_pattern_Cons Nil by simp
        have "scan quote_pattern prev (x # xs) = scan quote_pattern (Some x) xs"
          by (simp add: m)
        then show ?thesis unfolding s seg_eq by (simp only: IHxs)
      next
        case (Cons q rest)
        let ?tw = "takeWhile (\<lambda>c. c \<noteq> CHR 0x22) xs"
        have shorter: "length rest < length (x # xs)"
          using length_dropWhile_le [of "\<lambda>c. c \<noteq> CHR 0x22" xs] Cons by simp
        then have IHrest: "map (\<lambda>ps. ps ! 1) (scan quote_pattern p rest) = odd_closed (segments rest)" for p
          using 1 s by simp
        obtain seg segs where sg: "segments rest = seg # segs"
          using segments_not_Nil [of rest] by (cases "segments rest") auto
        have "segments xs = ?tw # segments rest"
          by (subst segments_unfold) (simp only: Cons list.case)
        then have seg_eq: "odd_closed (segments (x # xs)) = ?tw # odd_closed (segments rest)"
          using True sg by simp
        have m: "match_here quote_pattern prev (x # xs) = Some ([[x], ?tw, [q]], rest)"
          unfolding match_quote_pattern_Cons Cons using True by simp
        have "scan quote_pattern prev (x # xs) = [[x], ?tw, [q]] # scan quote_pattern (Some q) rest"
          using shorter by (simp add: m)
        then have "map (\<lambda>ps. ps ! 1) (scan quote_pattern prev (x # xs))
                   = ?tw # map (\<lambda>ps. ps ! 1) (scan quote_pattern (Some q) rest)"
          by simp
        then show ?thesis unfolding s seg_eq by (simp only: IHrest)
      qed
    qed
  qed
qed

lemma findall_quotes: "findall_group 1 quote_pattern s = enclosed_in_quotes s"
  unfolding findall_group_def enclosed_in_quotes_def Let_def scan_quote_pattern odd_closed_nth ..

text \<open>
  Claim C7. When the article is fetched, \<open>get_article_text\<close> returns the substrings
  enclosed in double quotation marks of the paragraph texts joined by spaces, in the
  order of the text; on the text \<open>He said "hello" and "world"\<close> it returns
  \<open>hello\<close> and \<open>world\<close>, in that order.
\<close>

theorem get_article_text_quotes:
  "(fetch (site url) = Some paragraphs \<longrightarrow>
      get_article_text site url = Some (enclosed_in_quotes (join '' '' paragraphs))) \<and>
   get_article_text (\<lambda>_. Response 200 [''He said \"hello\" and \"world\"'']) url
     = Some [''hello'', ''world'']"
proof -
  have "get_article_text (\<lambda>_. Response 200 [''He said \"hello\" and \"world\"'']) url
     = Some [''hello'', ''world'']"
    by (simp add: get_article_text_def fetch_def findall_group_def quote_pattern_def piece_def)
  moreover have "fetch (site url) = Some paragraphs \<longrightarrow>
      get_article_text site url = Some (enclosed_in_quotes (join '' '' paragraphs))"
    unfolding get_article_text_def Let_def findall_quotes by simp
  ultimately show ?thesis by (rule conjI [rotated])
qed

theorem get_article_text_quotes_witness:
  "fetch (Response 200 [''She said \"yes\"'', ''then \"no\" and \"''])
     = Some [''She said \"yes\"'', ''then \"no\" and \"''] \<and>
   get_article_text (\<lambda>_. Response 200 [''She said \"yes\"'', ''then \"no\" and \"'']) ''u''
     = Some [''yes'', ''no'']"
proof -
  have f: "fetch (Response 200 [''She said \"yes\"'', ''then \"no\" and \"''])
     = Some [''She said \"yes\"'', ''then \"no\" and \"'']"
    by (simp add: fetch_def)
  have e: "enclosed_in_quotes (join '' '' [''She said \"yes\"'', ''then \"no\" and \"'']) = [''yes'', ''no'']"
    by (simp add: enclosed_in_quotes_def)
  from get_article_text_quotes [of "\<lambda>_. Response 200 [''She said \"yes\"'', ''then \"no\" and \"'']"
      "''u''" "[''She said \"yes\"'', ''then \"no\" and \"'']"] f e
  show ?thesis by simp
qed

section \<open>Properties of the fact-check lookup\<close>

lemma parse_results_acc:
  "parse_results results acc =
     (case parse_results results [] of Inl e \<Rightarrow> Inl e | Inr sts \<Rightarrow> Inr (acc @ sts))"
proof (induction results arbitrary: acc)
  case Nil
  show ?case by simp
next
  case (Cons r rs)
  show ?case
  proof (cases "parse_result r")
    case (Inl e)
    then show ?thesis by simp
  next
    case st: (Inr st)
    have with_acc: "parse_results (r # rs) acc = parse_results rs (acc @ [st])"
      and without: "parse_results (r # rs) [] = parse_results rs [st]"
      by (simp_all add: st)
    show ?thesis
    proof (cases "parse_results rs []")
      case (Inl e)
      have "parse_results rs (acc @ [st]) = Inl e"
        using Cons.IH [of "acc @ [st]"] Inl by simp
      moreover have "parse_results rs [st] = Inl e"
        using Cons.IH [of "[st]"] Inl by simp
      ultimately show ?thesis unfolding with_acc without by simp
    next
      case (Inr sts)
      have "parse_results rs (acc @ [st]) = Inr (acc @ st # sts)"
        using Cons.IH [of "acc @ [st]"] Inr by simp
      moreover have "parse_results rs [st] = Inr (st # sts)"
        using Cons.IH [of "[st]"] Inr by simp
      ultimately show ?thesis unfolding with_acc without by simp
    qed
  qed
qed

lemma scrape_pages_stop:
  assumes stop: "fetch (site n) = None \<or> fetch (site n) = Some []"
    and good: "\<forall>p. a \<le> p \<and> p < n \<longrightarrow>
           fetch (site p) = Some (content p) \<and> content p \<noteq> [] \<and>
           parse_results (content p) [] = Inr (recs p)"
    and le: "a \<le> n"
  shows "scrape_pages site a acc requested =
           Some (Inr (acc @ concat (map recs [a..<n])), requested @ [a..<Suc n])"
  using good le
proof (induction "n - a" arbitrary: a acc requested)
  case 0
  then have "a = n" by simp
  with stop show ?case
    by (subst scrape_pages.simps) auto
next
  case (Suc d)
  then have lt: "a < n" by simp
  with Suc.prems have page: "fetch (site a) = Some (content a)" "content a \<noteq> []"
    "parse_results (content a) [] = Inr (recs a)"
    by auto
  have parsed: "parse_results (content a) acc = Inr (acc @ recs a)"
    by (subst parse_results_acc) (simp add: page)
  have step: "scrape_pages site a acc requested =
              scrape_pages site (Suc a) (acc @ recs a) (requested @ [a])"
    by (subst scrape_pages.simps) (simp add: page parsed)
  have "scrape_pages site (Suc a) (acc @ recs a) (requested @ [a]) =
          Some (Inr ((acc @ recs a) @ concat (map recs [Suc a..<n])),
                (requested @ [a]) @ [Suc a..<Suc n])"
  proof (rule Suc.hyps(1))
    show "d = n - Suc a" using Suc.hyps(2) by simp
    show "\<forall>p. Suc a \<le> p \<and> p < n \<longrightarrow>
           fetch (site p) = Some (content p) \<and> content p \<noteq> [] \<and>
           parse_results (content p) [] = Inr (recs p)"
      using Suc.prems(1) by simp
    show "Suc a \<le> n" using lt by simp
  qed
  moreover have "[a..<n] = a # [Suc a..<n]" "[a..<Suc n] = a # [Suc a..<Suc n]"
    using lt by (simp_all add: upt_conv_Cons)
  ultimately show ?case unfolding step by simp
qed


lemma fetch_None_iff:
  "fetch r = None \<longleftrightarrow>
     r = RequestFailed \<or> (\<exists>status doc. r = Response status doc \<and> 400 \<le> status \<and> status < 600)"
  by (cases r) (auto simp: fetch_def)

lemma example_pages:
  "p \<in> {1..<3} \<Longrightarrow> p = 1 \<or> p = (2::nat)"
  by auto

text \<open>
  Claim C4. Let page \<open>n\<close> be the first page without result entries: the pages
  before it are fetched, each has entries, and the entries have the expected
  structure, \<open>recs p\<close> being the records read from page \<open>p\<close>. Then the lookup
  returns, it has requested the pages 1 to \<open>n\<close> and no other, and its result is
  the records of the pages 1 to \<open>n - 1\<close>, in page order.
\<close>

theorem scrape_stops_at_first_empty_page:
  assumes "1 \<le> n"
    and "\<forall>p\<in>{1..<n}. fetch (search speaker_name p) = Some (content p) \<and> content p \<noteq> [] \<and>
           parse_results (content p) [] = Inr (recs p)"
    and "fetch (search speaker_name n) = Some []"
  shows "scrape_politifact_for_speaker search speaker_name =
           Some (Inr (concat (map recs [1..<n])), [1..<Suc n])"
  unfolding scrape_politifact_for_speaker_def
  using scrape_pages_stop [of "search speaker_name" n 1 content recs "[]" "[]"] assms by simp

theorem scrape_stops_at_first_empty_page_witness:
  "scrape_politifact_for_speaker example_search ''John Smith'' =
     Some (Inr [\<lparr>title = ''Taxes went up'', rating = ''True''\<rparr>,
                \<lparr>title = ''Crime fell'', rating = ''False''\<rparr>,
                \<lparr>title = ''Jobs doubled'', rating = ''Half True''\<rparr>], [1, 2, 3])"
proof -
  let ?content = "\<lambda>p::nat. if p = 1
        then [\<lparr>quote = Some '' Taxes went up '', meter = Alt ''True''\<rparr>,
              \<lparr>quote = Some ''Crime fell'', meter = Alt '' False ''\<rparr>]
        else [\<lparr>quote = Some ''Jobs doubled'', meter = Alt ''Half True''\<rparr>]"
  let ?recs = "\<lambda>p::nat. if p = 1
        then [\<lparr>title = ''Taxes went up'', rating = ''True''\<rparr>,
              \<lparr>title = ''Crime fell'', rating = ''False''\<rparr>]
        else [\<lparr>title = ''Jobs doubled'', rating = ''Half True''\<rparr>]"
  have good: "\<forall>p\<in>{1..<3}. fetch (example_search ''John Smith'' p) = Some (?content p) \<and>
      ?content p \<noteq> [] \<and> parse_results (?content p) [] = Inr (?recs p)"
    by (auto dest!: example_pages
        simp: example_search_def fetch_def parse_result_def strip_def is_space_def)
  have stop: "fetch (example_search ''John Smith'' 3) = Some []"
    by (simp add: example_search_def fetch_def)
  from scrape_stops_at_first_empty_page [of 3 example_search "''John Smith''" ?content ?recs, OF _ good stop]
  show ?thesis by (simp add: upt_rec)
qed

text \<open>
  Claim C6. Let the request for page \<open>k\<close> fail with a \<open>RequestException\<close> (no
  response, or a status from 400 to 599), the pages before it being fetched, with
  entries of the expected structure. Then the lookup returns, without an exception,
  the records of the pages 1 to \<open>k - 1\<close>, and requests no page after \<open>k\<close>.
\<close>

theorem scrape_returns_partial_results_on_error:
  assumes "1 \<le> k"
    and "\<forall>p\<in>{1..<k}. fetch (search speaker_name p) = Some (content p) \<and> content p \<noteq> [] \<and>
           parse_results (content p) [] = Inr (recs p)"
    and "fetch (search speaker_name k) = None"
  shows "scrape_politifact_for_speaker search speaker_name =
           Some (Inr (concat (map recs [1..<k])), [1..<Suc k])"
  unfolding scrape_politifact_for_speaker_def
  using scrape_pages_stop [of "search speaker_name" k 1 content recs "[]" "[]"] assms by simp

theorem scrape_returns_partial_results_on_error_witness:
  "fetch (example_search_failing ''John Smith'' 3) = None \<and>
   scrape_politifact_for_speaker example_search_failing ''John Smith'' =
     Some (Inr [\<lparr>title = ''Taxes went up'', rating = ''True''\<rparr>,
                \<lparr>title = ''Crime fell'', rating = ''False''\<rparr>,
                \<lparr>title = ''Jobs doubled'', rating = ''Half True''\<rparr>], [1, 2, 3])"
proof -
  let ?content = "\<lambda>p::nat. if p = 1
        then [\<lparr>quote = Some '' Taxes went up '', meter = Alt ''True''\<rparr>,
              \<lparr>quote = Some ''Crime fell'', meter = Alt '' False ''\<rparr>]
        else [\<lparr>quote = Some ''Jobs doubled'', meter = Alt ''Half True''\<rparr>]"
  let ?recs = "\<lambda>p::nat. if p = 1
        then [\<lparr>title = ''Taxes went up'', rating = ''True''\<rparr>,
              \<lparr>title = ''Crime fell'', rating = ''False''\<rparr>]
        else [\<lparr>title = ''Jobs doubled'', rating = ''Half True''\<rparr>]"
  have good: "\<forall>p\<in>{1..<3}. fetch (example_search_failing ''John Smith'' p) = Some (?content p) \<and>
      ?content p \<noteq> [] \<and> parse_results (?content p) [] = Inr (?recs p)"
    by (auto dest!: example_pages
        simp: example_search_failing_def example_search_def fetch_def parse_result_def strip_def
          is_space_def)
  have stop: "fetch (example_search_failing ''John Smith'' 3) = None"
    by (simp add: example_search_failing_def fetch_def)
  from scrape_returns_partial_results_on_error
    [of 3 example_search_failing "''John Smith''" ?content ?recs, OF _ good stop] stop
  show ?thesis by (simp add: upt_rec)
qed

section \<open>Properties of the result writer and of the whole run\<close>










end
